theory Spec2Isabelle
  imports Main "HOL-Library.Sublist" "HOL-Library.Multiset" "HOL-Library.AList"
    "HOL-Library.Signed_Division"
begin

section \<open>Sequences, iterators and optional callbacks\<close>

text \<open>
  The embedding follows \<^verbatim>\<open>src/generators.ts\<close>.

  \<^item> An iterable source is the finite list of the elements it produces, in order.
  \<^item> A generator function is the list of the values it yields, in the order of the
    yields: \<^verbatim>\<open>yield v\<close> followed by the rest of the body is \<open>v # rest\<close>, and a
    loop is a recursive function over the loop's state.
  \<^item> A JavaScript number used as a count or as an element is an \<open>int\<close>; an index that
    starts at 0 and is only incremented is a \<open>nat\<close>.
  \<^item> Callbacks are pure HOL functions.
  \<^item> Three names of the source are taken by HOL or by Isabelle's syntax: the parameter
    \<^verbatim>\<open>count\<close> is written \<open>cnt\<close>, the local \<^verbatim>\<open>set\<close> is written \<open>set'\<close>, and the
    field \<^verbatim>\<open>value\<close> of a key-value pair is written \<open>val\<close>.
\<close>

type_synonym 'a iterator = "'a list"

text \<open>
  \<^verbatim>\<open>iterator.next()\<close>: the iterator is the list of the elements still to come; the
  result is \<open>None\<close> for \<^verbatim>\<open>{done: true}\<close> and \<open>Some v\<close> for \<^verbatim>\<open>{done: false, value: v}\<close>,
  together with the advanced iterator.
\<close>

definition iterator_next :: "'a iterator \<Rightarrow> 'a option \<times> 'a iterator" where
  "iterator_next it = (case it of [] \<Rightarrow> (None, []) | v # rest \<Rightarrow> (Some v, rest))"

text \<open>
  Modelled from the spec: \<^verbatim>\<open>selfSelector\<close> of \<^verbatim>\<open>./common\<close>, which is not among the
  sources. The spec calls it the identity function ("default is identity passthrough").
  The source uses it, untyped, in the place of a callback of type \<^verbatim>\<open>(item: T) => R\<close>, so
  what such a callback returns is a value of the union of \<open>R\<close> and \<open>T\<close>: \<open>Inl r\<close> is a
  value \<open>r\<close> of the declared result type, \<open>Inr x\<close> is the element \<open>x\<close> itself.
\<close>

definition selfSelector :: "'a \<Rightarrow> 'r + 'a" where
  "selfSelector x = Inr x"

text \<open>
  \<^verbatim>\<open>f = f || selfSelector\<close> for an optional callback \<open>f\<close>: an omitted argument is
  \<open>None\<close>, a function is always truthy.
\<close>

definition orSelfSelector :: "('a \<Rightarrow> 'r + 'a) option \<Rightarrow> ('a \<Rightarrow> 'r + 'a)" where
  "orSelfSelector f = (case f of None \<Rightarrow> selfSelector | Some g \<Rightarrow> g)"


section \<open>Primitive producers\<close>

text \<open>\<^verbatim>\<open>for (let i = 0; i < count; i++) yield start + i\<close>\<close>

function range_loop :: "int \<Rightarrow> int \<Rightarrow> int \<Rightarrow> int list" where
  "range_loop start cnt i =
     (if i < cnt then (start + i) # range_loop start cnt (i + 1) else [])"
  by pat_completeness auto
termination
  by (relation "measure (\<lambda>(start, cnt, i). nat (cnt - i))") auto

declare range_loop.simps [simp del]

definition rangeGenerator :: "int \<Rightarrow> int \<Rightarrow> int list" where
  "rangeGenerator start cnt = range_loop start cnt 0"

text \<open>\<^verbatim>\<open>for (let i = 0; i < count; i++) yield value\<close>\<close>

function repeat_loop :: "'a \<Rightarrow> int \<Rightarrow> int \<Rightarrow> 'a list" where
  "repeat_loop v cnt i =
     (if i < cnt then v # repeat_loop v cnt (i + 1) else [])"
  by pat_completeness auto
termination
  by (relation "measure (\<lambda>(v, cnt, i). nat (cnt - i))") auto

declare repeat_loop.simps [simp del]

definition repeatGenerator :: "'a \<Rightarrow> int \<Rightarrow> 'a list" where
  "repeatGenerator v cnt = repeat_loop v cnt 0"


section \<open>Elementwise transformers\<close>

text \<open>
  \<^verbatim>\<open>let i = 0; for (const item of source) { yield selector(item, i); i++; }\<close>
\<close>

fun map_loop :: "('a \<Rightarrow> nat \<Rightarrow> 'r) \<Rightarrow> nat \<Rightarrow> 'a list \<Rightarrow> 'r list" where
  "map_loop selector i [] = []"
| "map_loop selector i (item # rest) = selector item i # map_loop selector (i + 1) rest"

definition mapGenerator :: "'a list \<Rightarrow> ('a \<Rightarrow> nat \<Rightarrow> 'r) \<Rightarrow> 'r list" where
  "mapGenerator source selector = map_loop selector 0 source"

text \<open>
  \<^verbatim>\<open>let i = 0; for (const item of source) { if (condition(item, i)) { yield item; } }\<close>

  The loop body of the source has no \<^verbatim>\<open>i++\<close>: the index handed to the next
  iteration is the same \<open>i\<close>.
\<close>

fun filter_loop :: "('a \<Rightarrow> nat \<Rightarrow> bool) \<Rightarrow> nat \<Rightarrow> 'a list \<Rightarrow> 'a list" where
  "filter_loop condition i [] = []"
| "filter_loop condition i (item # rest) =
     (if condition item i then item # filter_loop condition i rest
      else filter_loop condition i rest)"

definition filterGenerator :: "'a list \<Rightarrow> ('a \<Rightarrow> nat \<Rightarrow> bool) \<Rightarrow> 'a list" where
  "filterGenerator source condition = filter_loop condition 0 source"


section \<open>Structural combinators\<close>

text \<open>
  \<^verbatim>\<open>for (const item of source) { yield item; }\<close> followed by the rest of the generator's
  body, whose yields are \<open>after\<close>.
\<close>

fun forOf_yield :: "'a list \<Rightarrow> 'a list \<Rightarrow> 'a list" where
  "forOf_yield [] after = after"
| "forOf_yield (item # rest) after = item # forOf_yield rest after"

definition appendGenerator :: "'a list \<Rightarrow> 'a \<Rightarrow> 'a list" where
  "appendGenerator source element = element # forOf_yield source []"

definition prependGenerator :: "'a list \<Rightarrow> 'a \<Rightarrow> 'a list" where
  "prependGenerator source element = forOf_yield source [element]"

definition concatGenerator :: "'a list \<Rightarrow> 'a list \<Rightarrow> 'a list" where
  "concatGenerator source other = forOf_yield source (forOf_yield other [])"

text \<open>
  The two loops of \<^verbatim>\<open>skipGenerator\<close>, over the last result of \<^verbatim>\<open>iterator.next()\<close>
  (\<open>None\<close> when \<^verbatim>\<open>result.done\<close>), the iterator and the count:
  \<^verbatim>\<open>while (!result.done && count > 0) { count--; result = iterator.next(); }\<close> and
  \<^verbatim>\<open>while (!result.done) { yield result.value; result = iterator.next(); }\<close>.
\<close>

function skip_advance :: "'a option \<Rightarrow> 'a iterator \<Rightarrow> int \<Rightarrow> 'a option \<times> 'a iterator" where
  "skip_advance None iterator cnt = (None, iterator)"
| "skip_advance (Some v) iterator cnt =
     (if cnt > 0
      then skip_advance (fst (iterator_next iterator)) (snd (iterator_next iterator)) (cnt - 1)
      else (Some v, iterator))"
  by pat_completeness auto
termination
  by (relation "measure (\<lambda>(result, iterator, cnt).
        length iterator + (case result of None \<Rightarrow> 0 | Some v \<Rightarrow> 1))")
     (auto simp: iterator_next_def split: list.splits)

function skip_rest :: "'a option \<Rightarrow> 'a iterator \<Rightarrow> 'a list" where
  "skip_rest None iterator = []"
| "skip_rest (Some v) iterator =
     v # skip_rest (fst (iterator_next iterator)) (snd (iterator_next iterator))"
  by pat_completeness auto
termination
  by (relation "measure (\<lambda>(result, iterator).
        length iterator + (case result of None \<Rightarrow> 0 | Some v \<Rightarrow> 1))")
     (auto simp: iterator_next_def split: list.splits)

definition skipGenerator :: "'a list \<Rightarrow> int \<Rightarrow> 'a list" where
  "skipGenerator source cnt =
     (let (result, iterator) = iterator_next source;
          (result, iterator) = skip_advance result iterator cnt
      in skip_rest result iterator)"

text \<open>
  \<^verbatim>\<open>while (!result.done && count > 0) { yield result.value; count--; result = iterator.next(); }\<close>
\<close>

function take_loop :: "'a option \<Rightarrow> 'a iterator \<Rightarrow> int \<Rightarrow> 'a list" where
  "take_loop None iterator cnt = []"
| "take_loop (Some v) iterator cnt =
     (if cnt > 0
      then v # take_loop (fst (iterator_next iterator)) (snd (iterator_next iterator)) (cnt - 1)
      else [])"
  by pat_completeness auto
termination
  by (relation "measure (\<lambda>(result, iterator, cnt).
        length iterator + (case result of None \<Rightarrow> 0 | Some v \<Rightarrow> 1))")
     (auto simp: iterator_next_def split: list.splits)

definition takeGenerator :: "'a list \<Rightarrow> int \<Rightarrow> 'a list" where
  "takeGenerator source cnt =
     (let (result, iterator) = iterator_next source
      in take_loop result iterator cnt)"

text \<open>
  \<^verbatim>\<open>const buffer = Array.from(source);\<close>
  \<^verbatim>\<open>for (let i = 0; i < buffer.length; i++) yield buffer[buffer.length - i - 1];\<close>
  The index read is below \<open>length buffer\<close> whenever the loop's guard holds.
\<close>

function reverse_loop :: "'a list \<Rightarrow> nat \<Rightarrow> 'a list" where
  "reverse_loop buffer i =
     (if i < length buffer
      then (buffer ! (length buffer - i - 1)) # reverse_loop buffer (i + 1)
      else [])"
  by pat_completeness auto
termination
  by (relation "measure (\<lambda>(buffer, i). length buffer - i)") auto

declare reverse_loop.simps [simp del]

definition reverseGenerator :: "'a list \<Rightarrow> 'a list" where
  "reverseGenerator source = reverse_loop source 0"


section \<open>Identity-based set operators\<close>

text \<open>
  A \<^verbatim>\<open>Set\<close> of identity keys is a HOL set: \<^verbatim>\<open>set.has(key)\<close> is \<open>key \<in> set'\<close>,
  \<^verbatim>\<open>set.add(key)\<close> is \<open>insert key set'\<close>, and \<^verbatim>\<open>new Set(iterable)\<close> is the set of the
  iterable's elements. Keys are compared by HOL equality, as \<^verbatim>\<open>Set\<close> compares strings
  and other primitive values.

  \<^verbatim>\<open>for (const item of source) {\<close>
  \<^verbatim>\<open>  const key = stringifier(item);\<close>
  \<^verbatim>\<open>  if (!set.has(key)) { set.add(key); yield item; } }\<close>
\<close>

fun distinct_loop :: "('a \<Rightarrow> 'k) \<Rightarrow> 'k set \<Rightarrow> 'a list \<Rightarrow> 'a list" where
  "distinct_loop stringifier set' [] = []"
| "distinct_loop stringifier set' (item # rest) =
     (let key = stringifier item
      in if key \<notin> set' then item # distinct_loop stringifier (insert key set') rest
         else distinct_loop stringifier set' rest)"

definition distinctGenerator ::
    "'a list \<Rightarrow> ('a \<Rightarrow> string + 'a) option \<Rightarrow> 'a list" where
  "distinctGenerator source stringifier =
     (let stringifier = orSelfSelector stringifier
      in distinct_loop stringifier {} source)"

text \<open>\<^verbatim>\<open>for (const item of first) { if (!set.has(stringifier(item))) { yield item; } }\<close>\<close>

fun except_loop :: "('a \<Rightarrow> 'k) \<Rightarrow> 'k set \<Rightarrow> 'a list \<Rightarrow> 'a list" where
  "except_loop stringifier set' [] = []"
| "except_loop stringifier set' (item # rest) =
     (if stringifier item \<notin> set' then item # except_loop stringifier set' rest
      else except_loop stringifier set' rest)"

text \<open>
  \<^verbatim>\<open>new Set<string>(mapGenerator(second, stringifier))\<close>: \<^verbatim>\<open>mapGenerator\<close> calls its
  selector with the item and the index, and the stringifier reads the item only.
\<close>

definition exceptGenerator ::
    "'a list \<Rightarrow> 'a list \<Rightarrow> ('a \<Rightarrow> string + 'a) option \<Rightarrow> 'a list" where
  "exceptGenerator first second stringifier =
     (let stringifier = orSelfSelector stringifier;
          set' = set (mapGenerator second (\<lambda>item index. stringifier item))
      in except_loop stringifier set' first)"

text \<open>\<^verbatim>\<open>for (const item of first) { if (set.has(stringifier(item))) { yield item; } }\<close>\<close>

fun intersect_loop :: "('a \<Rightarrow> 'k) \<Rightarrow> 'k set \<Rightarrow> 'a list \<Rightarrow> 'a list" where
  "intersect_loop stringifier set' [] = []"
| "intersect_loop stringifier set' (item # rest) =
     (if stringifier item \<in> set' then item # intersect_loop stringifier set' rest
      else intersect_loop stringifier set' rest)"

definition intersectGenerator ::
    "'a list \<Rightarrow> 'a list \<Rightarrow> ('a \<Rightarrow> string + 'a) option \<Rightarrow> 'a list" where
  "intersectGenerator first second stringifier =
     (let stringifier = orSelfSelector stringifier;
          set' = set (mapGenerator second (\<lambda>item index. stringifier item))
      in intersect_loop stringifier set' first)"

definition unionGenerator ::
    "'a list \<Rightarrow> 'a list \<Rightarrow> ('a \<Rightarrow> string + 'a) option \<Rightarrow> 'a list" where
  "unionGenerator first second stringifier =
     (let stringifier = orSelfSelector stringifier
      in distinctGenerator (concatGenerator first second) (Some stringifier))"


section \<open>Objects as key-value records, and grouping\<close>

text \<open>
  The part of JavaScript's objects that \<^verbatim>\<open>groupByGenerator\<close> and
  \<^verbatim>\<open>objectGenerator\<close> rely on.

  A key selected by \<^verbatim>\<open>keySelector\<close> is a string, a number or a symbol. The numbers
  modelled are the integers that a JavaScript number holds exactly (magnitude below
  \<open>2\<^sup>5\<^sup>3\<close>). Used as a property name, such a number becomes its decimal string,
  with a minus sign when negative, and a string or a symbol stays what it is.
\<close>

datatype js_key = Number int | String string | Symbol nat

datatype property_key = PString string | PSymbol nat

function digits :: "int \<Rightarrow> string" where
  "digits n =
     (if n < 10 then [''0123456789'' ! nat n]
      else digits (n div 10) @ [''0123456789'' ! nat (n mod 10)])"
  by pat_completeness auto
termination
  by (relation "measure nat") auto

declare digits.simps [simp del]

definition NumberToString :: "int \<Rightarrow> string" where
  "NumberToString n = (if n < 0 then CHR ''-'' # digits (- n) else digits n)"

definition ToPropertyKey :: "js_key \<Rightarrow> property_key" where
  "ToPropertyKey k =
     (case k of Number n \<Rightarrow> PString (NumberToString n)
              | String s \<Rightarrow> PString s
              | Symbol y \<Rightarrow> PSymbol y)"

text \<open>
  An object created by \<^verbatim>\<open>{}\<close> is the list of its own properties in the order of
  their creation, each key once; every property the source creates is enumerable. Its
  prototype is \<^verbatim>\<open>Object.prototype\<close>, whose properties (none of them enumerable, none
  of them null) are seen through every read of a key the object does not own.
\<close>

type_synonym 'v object = "(property_key \<times> 'v) list"

definition objectPrototypeKeys :: "string list" where
  "objectPrototypeKeys =
     [''constructor'', ''hasOwnProperty'', ''isPrototypeOf'', ''propertyIsEnumerable'',
      ''toLocaleString'', ''toString'', ''valueOf'', ''__proto__'',
      ''__defineGetter__'', ''__defineSetter__'', ''__lookupGetter__'', ''__lookupSetter__'']"

datatype 'v property = Undefined | Own 'v | Inherited

text \<open>The read \<^verbatim>\<open>obj[key]\<close>.\<close>

definition Get :: "'v object \<Rightarrow> property_key \<Rightarrow> 'v property" where
  "Get obj p =
     (case map_of obj p of
        Some v \<Rightarrow> Own v
      | None \<Rightarrow>
          (case p of
             PString s \<Rightarrow> if s \<in> set objectPrototypeKeys then Inherited else Undefined
           | PSymbol y \<Rightarrow> Undefined))"

text \<open>
  The order in which \<^verbatim>\<open>for (const key in obj)\<close> visits the keys of such an object:
  the own string keys that are array indices (the decimal string, without a sign or a
  leading zero, of an integer below \<open>2\<^sup>3\<^sup>2 - 1\<close>) in ascending numeric order, then
  the other own string keys in the order of their creation. Symbols are not visited.
\<close>

definition digit_value :: "char \<Rightarrow> int" where
  "digit_value c = int (length (takeWhile (\<lambda>d. d \<noteq> c) ''0123456789''))"

definition parse_digits :: "string \<Rightarrow> int" where
  "parse_digits s = foldl (\<lambda>n c. 10 * n + digit_value c) 0 s"

definition array_index :: "string \<Rightarrow> int option" where
  "array_index s =
     (if s \<noteq> [] \<and> list_all (\<lambda>c. c \<in> set ''0123456789'') s
         \<and> digits (parse_digits s) = s \<and> parse_digits s < 4294967295
      then Some (parse_digits s) else None)"

definition string_keys :: "'v object \<Rightarrow> string list" where
  "string_keys obj = concat (map (\<lambda>(p, v). case p of PString s \<Rightarrow> [s] | PSymbol y \<Rightarrow> []) obj)"

definition for_in_keys :: "'v object \<Rightarrow> string list" where
  "for_in_keys obj =
     map digits (sort (concat (map (\<lambda>s. case array_index s of Some n \<Rightarrow> [n] | None \<Rightarrow> [])
                                   (string_keys obj))))
     @ filter (\<lambda>s. array_index s = None) (string_keys obj)"

record ('k, 'v) KeyValue =
  key :: 'k
  val :: 'v

text \<open>
  \<^verbatim>\<open>for (const key in obj) { if (obj.hasOwnProperty(key)) { yield {key, value: obj[key]}; } }\<close>
  over the keys still to visit; \<^verbatim>\<open>hasOwnProperty\<close> holds where the object owns the key,
  and then \<^verbatim>\<open>obj[key]\<close> is the own value. The field \<^verbatim>\<open>value\<close> is written \<open>val\<close>.
\<close>

fun objectGenerator_loop :: "'v object \<Rightarrow> string list \<Rightarrow> (string, 'v) KeyValue list" where
  "objectGenerator_loop obj [] = []"
| "objectGenerator_loop obj (k # rest) =
     (case map_of obj (PString k) of
        Some v \<Rightarrow> \<lparr>key = k, val = v\<rparr> # objectGenerator_loop obj rest
      | None \<Rightarrow> objectGenerator_loop obj rest)"

definition objectGenerator :: "'v object \<Rightarrow> (string, 'v) KeyValue list" where
  "objectGenerator obj = objectGenerator_loop obj (for_in_keys obj)"

datatype error = TypeError

text \<open>
  The loop of \<^verbatim>\<open>groupByGenerator\<close>:
  \<^verbatim>\<open>const key = keySelector(item);\<close>
  \<^verbatim>\<open>if (record[key] == null) { record[key] = []; }\<close>
  \<^verbatim>\<open>record[key].push(valueSelector(item));\<close>
  A key that names a property of \<^verbatim>\<open>Object.prototype\<close> reads as that property, which is
  not null and has no \<^verbatim>\<open>push\<close>: the call throws a \<^verbatim>\<open>TypeError\<close>.
\<close>

fun groupBy_loop ::
    "('a \<Rightarrow> js_key) \<Rightarrow> ('a \<Rightarrow> 'v) \<Rightarrow> 'v list object \<Rightarrow> 'a list \<Rightarrow> error + 'v list object" where
  "groupBy_loop keySelector valueSelector record [] = Inr record"
| "groupBy_loop keySelector valueSelector record (item # rest) =
     (let k = ToPropertyKey (keySelector item);
          record = (if Get record k = Undefined then AList.update k [] record else record)
      in case Get record k of
           Own values \<Rightarrow>
             groupBy_loop keySelector valueSelector
               (AList.update k (values @ [valueSelector item]) record) rest
         | Inherited \<Rightarrow> Inl TypeError
         | Undefined \<Rightarrow> Inl TypeError)"

definition groupByGenerator ::
    "'a list \<Rightarrow> ('a \<Rightarrow> js_key) \<Rightarrow> ('a \<Rightarrow> 'v + 'a) option
       \<Rightarrow> error + (string, ('v + 'a) list) KeyValue list" where
  "groupByGenerator source keySelector valueSelector =
     (let valueSelector = orSelfSelector valueSelector
      in case groupBy_loop keySelector valueSelector [] source of
           Inl e \<Rightarrow> Inl e
         | Inr record \<Rightarrow> Inr (objectGenerator record))"


section \<open>What the loops compute\<close>

lemma range_loop_done: "cnt \<le> i \<Longrightarrow> range_loop start cnt i = []"
  by (subst range_loop.simps) simp

lemma repeat_loop_done: "cnt \<le> i \<Longrightarrow> repeat_loop v cnt i = []"
  by (subst repeat_loop.simps) simp

lemma map_loop_eq:
  "map_loop selector i xs = map (\<lambda>(item, j). selector item j) (zip xs [i..<i + length xs])"
proof (induction xs arbitrary: i)
  case Nil
  show ?case by simp
next
  case (Cons x xs)
  have "[i..<i + length (x # xs)] = i # [Suc i..<Suc i + length xs]"
    by (subst upt_rec) simp
  with Cons show ?case by simp
qed

lemma mapGenerator_eq:
  "mapGenerator source selector =
     map (\<lambda>(item, j). selector item j) (zip source [0..<length source])"
  by (simp add: mapGenerator_def map_loop_eq)

lemma mapGenerator_ignoring_index:
  "mapGenerator source (\<lambda>item index. f item) = map f source"
proof -
  have "map_loop (\<lambda>item index. f item) i xs = map f xs" for i xs
    by (induction xs arbitrary: i) simp_all
  then show ?thesis by (simp add: mapGenerator_def)
qed

lemma filter_loop_eq: "filter_loop condition i xs = filter (\<lambda>item. condition item i) xs"
  by (induction xs) simp_all

lemma filterGenerator_eq:
  "filterGenerator source condition = filter (\<lambda>item. condition item 0) source"
  by (simp add: filterGenerator_def filter_loop_eq)

lemma forOf_yield_eq: "forOf_yield xs after = xs @ after"
  by (induction xs) simp_all

lemma concatGenerator_eq: "concatGenerator source other = source @ other"
  by (simp add: concatGenerator_def forOf_yield_eq)

lemma skip_rest_eq:
  "skip_rest result iterator = (case result of None \<Rightarrow> [] | Some v \<Rightarrow> v # iterator)"
proof (induction iterator arbitrary: result)
  case Nil
  show ?case by (cases result) (simp_all add: iterator_next_def)
next
  case (Cons x xs)
  show ?case
  proof (cases result)
    case None
    then show ?thesis by simp
  next
    case (Some v)
    have "skip_rest (Some x) xs = x # xs" using Cons [of "Some x"] by simp
    with Some show ?thesis by (simp add: iterator_next_def)
  qed
qed

lemma skip_rest_next:
  "skip_rest (fst (iterator_next xs)) (snd (iterator_next xs)) = xs"
  by (cases xs) (simp_all add: skip_rest_eq iterator_next_def)

lemma skip_advance_eq:
  "(case skip_advance (fst (iterator_next xs)) (snd (iterator_next xs)) cnt of
      (result, iterator) \<Rightarrow> skip_rest result iterator) = drop (nat cnt) xs"
proof (induction xs arbitrary: cnt)
  case Nil
  show ?case by (simp add: iterator_next_def)
next
  case (Cons x xs)
  show ?case
  proof (cases "cnt > 0")
    case True
    then have "nat cnt = Suc (nat (cnt - 1))" by simp
    then have "drop (nat cnt) (x # xs) = drop (nat (cnt - 1)) xs" by simp
    moreover have "skip_advance (fst (iterator_next (x # xs))) (snd (iterator_next (x # xs))) cnt
        = skip_advance (fst (iterator_next xs)) (snd (iterator_next xs)) (cnt - 1)"
      using True by (simp add: iterator_next_def)
    ultimately show ?thesis using Cons [of "cnt - 1"] by simp
  next
    case False
    then have "skip_advance (fst (iterator_next (x # xs))) (snd (iterator_next (x # xs))) cnt
        = (Some x, xs)"
      by (simp add: iterator_next_def)
    with False show ?thesis by (simp add: skip_rest_eq)
  qed
qed

lemma skipGenerator_eq: "skipGenerator source cnt = drop (nat cnt) source"
  using skip_advance_eq [of source cnt]
  by (simp add: skipGenerator_def split_beta)

lemma take_loop_eq:
  "take_loop (fst (iterator_next xs)) (snd (iterator_next xs)) cnt = take (nat cnt) xs"
proof (induction xs arbitrary: cnt)
  case Nil
  show ?case by (simp add: iterator_next_def)
next
  case (Cons x xs)
  show ?case
  proof (cases "cnt > 0")
    case True
    then have "nat cnt = Suc (nat (cnt - 1))" by simp
    then have "take (nat cnt) (x # xs) = x # take (nat (cnt - 1)) xs" by simp
    moreover have "take_loop (fst (iterator_next (x # xs))) (snd (iterator_next (x # xs))) cnt
        = x # take_loop (fst (iterator_next xs)) (snd (iterator_next xs)) (cnt - 1)"
      using True by (simp add: iterator_next_def)
    ultimately show ?thesis using Cons [of "cnt - 1"] by simp
  next
    case False
    then show ?thesis by (simp add: iterator_next_def)
  qed
qed

lemma takeGenerator_eq: "takeGenerator source cnt = take (nat cnt) source"
  using take_loop_eq [of source cnt]
  by (simp add: takeGenerator_def split_beta)

lemma reverse_loop_eq:
  "i \<le> length buffer \<Longrightarrow> reverse_loop buffer i = rev (take (length buffer - i) buffer)"
proof (induction buffer i rule: reverse_loop.induct)
  case (1 buffer i)
  show ?case
  proof (cases "i < length buffer")
    case True
    then have step: "length buffer - i = Suc (length buffer - i - 1)" by simp
    have "take (length buffer - i) buffer
        = take (length buffer - i - 1) buffer @ [buffer ! (length buffer - i - 1)]"
      using True by (subst step) (simp add: take_Suc_conv_app_nth)
    moreover have "reverse_loop buffer (i + 1) = rev (take (length buffer - (i + 1)) buffer)"
      using "1.IH" True by simp
    ultimately show ?thesis using True by (subst reverse_loop.simps) simp
  next
    case False
    with "1.prems" show ?thesis by (subst reverse_loop.simps) simp
  qed
qed

lemma reverseGenerator_eq: "reverseGenerator source = rev source"
  by (simp add: reverseGenerator_def reverse_loop_eq)


lemma distinct_loop_nths:
  "distinct_loop f seen xs = nths xs {i. f (xs ! i) \<notin> seen \<union> f ` set (take i xs)}"
proof (induction xs arbitrary: seen)
  case Nil
  show ?case by simp
next
  case (Cons x xs)
  have later: "{j. Suc j \<in> {i. f ((x # xs) ! i) \<notin> seen \<union> f ` set (take i (x # xs))}}
      = {j. f (xs ! j) \<notin> insert (f x) seen \<union> f ` set (take j xs)}"
    by auto
  show ?case
  proof (cases "f x \<in> seen")
    case True
    then have "insert (f x) seen = seen" by (rule insert_absorb)
    with True show ?thesis
      unfolding nths_Cons later using Cons [of seen] by simp
  next
    case False
    then show ?thesis
      unfolding nths_Cons later using Cons [of "insert (f x) seen"] by simp
  qed
qed

lemma subseq_take_drop: "subseq (take n xs) xs \<and> subseq (drop n xs) xs"
proof -
  have "subseq (take n xs) (take n xs @ drop n xs)"
    by (rule subseq_rev_drop_many) simp
  moreover have "subseq (drop n xs) (take n xs @ drop n xs)"
    by (rule subseq_drop_many) simp
  ultimately show ?thesis by simp
qed

lemma subseq_extended:
  "subseq xs (x # xs) \<and> subseq xs (xs @ ys) \<and> subseq ys (xs @ ys)"
proof -
  have "subseq xs (x # xs)"
    by (rule list_emb_Cons) simp
  moreover have "subseq xs (xs @ ys)"
    by (rule subseq_rev_drop_many) simp
  moreover have "subseq ys (xs @ ys)"
    by (rule subseq_drop_many) simp
  ultimately show ?thesis by simp
qed

lemma distinct_loop_subseq: "subseq (distinct_loop f seen xs) xs"
proof (induction xs arbitrary: seen)
  case Nil
  show ?case by simp
next
  case (Cons x xs)
  show ?case
  proof (cases "f x \<in> seen")
    case True
    have "subseq (distinct_loop f seen xs) (x # xs)"
      using Cons [of seen] by (rule list_emb_Cons)
    with True show ?thesis by simp
  next
    case False
    then show ?thesis using Cons [of "insert (f x) seen"] by simp
  qed
qed

lemma distinct_loop_fresh: "f ` set (distinct_loop f seen xs) \<inter> seen = {}"
proof (induction xs arbitrary: seen)
  case Nil
  show ?case by simp
next
  case (Cons x xs)
  show ?case
  proof (cases "f x \<in> seen")
    case True
    then show ?thesis using Cons [of seen] by simp
  next
    case False
    then show ?thesis using Cons [of "insert (f x) seen"] by auto
  qed
qed

lemma distinct_loop_distinct: "distinct (map f (distinct_loop f seen xs))"
proof (induction xs arbitrary: seen)
  case Nil
  show ?case by simp
next
  case (Cons x xs)
  show ?case
  proof (cases "f x \<in> seen")
    case True
    then show ?thesis using Cons [of seen] by simp
  next
    case False
    have "f x \<notin> f ` set (distinct_loop f (insert (f x) seen) xs)"
      using distinct_loop_fresh [of f "insert (f x) seen" xs] by auto
    with False show ?thesis using Cons [of "insert (f x) seen"] by simp
  qed
qed

lemma except_loop_eq: "except_loop f keys xs = filter (\<lambda>item. f item \<notin> keys) xs"
  by (induction xs) simp_all

lemma intersect_loop_eq: "intersect_loop f keys xs = filter (\<lambda>item. f item \<in> keys) xs"
  by (induction xs) simp_all

lemma exceptGenerator_eq:
  "exceptGenerator first second stringifier =
     filter (\<lambda>item. orSelfSelector stringifier item \<notin> orSelfSelector stringifier ` set second) first"
  by (simp add: exceptGenerator_def Let_def except_loop_eq mapGenerator_ignoring_index)

lemma intersectGenerator_eq:
  "intersectGenerator first second stringifier =
     filter (\<lambda>item. orSelfSelector stringifier item \<in> orSelfSelector stringifier ` set second) first"
  by (simp add: intersectGenerator_def Let_def intersect_loop_eq mapGenerator_ignoring_index)

lemma distinctGenerator_resolved:
  "distinctGenerator source (Some (orSelfSelector stringifier)) = distinctGenerator source stringifier"
  by (simp add: distinctGenerator_def orSelfSelector_def)

lemma orSelfSelector_Some: "orSelfSelector (Some g) = g"
  by (simp add: orSelfSelector_def)

lemma orSelfSelector_None_mem:
  "orSelfSelector None x \<in> orSelfSelector None ` X \<longleftrightarrow> x \<in> X"
  by (auto simp: orSelfSelector_def selfSelector_def)

lemma orSelfSelector_None_distinct:
  "distinct (map (orSelfSelector None) xs) \<longleftrightarrow> distinct xs"
  by (simp add: distinct_map orSelfSelector_def selfSelector_def inj_on_def)

lemma distinctGenerator_nths:
  "distinctGenerator S s =
     nths S {i. orSelfSelector s (S ! i) \<notin> orSelfSelector s ` set (take i S)}"
  unfolding distinctGenerator_def Let_def
  using distinct_loop_nths [of "orSelfSelector s" "{}" S] by simp

lemma distinctGenerator_distinct:
  "distinct (map (orSelfSelector s) (distinctGenerator S s))"
  by (simp add: distinctGenerator_def Let_def distinct_loop_distinct)

lemma distinctGenerator_length: "length (distinctGenerator S s) \<le> length S"
proof -
  have "subseq (distinctGenerator S s) S"
    by (simp add: distinctGenerator_def Let_def distinct_loop_subseq)
  then show ?thesis by (rule list_emb_length)
qed

lemma unionGenerator_eq:
  "unionGenerator A B s = distinctGenerator (concatGenerator A B) s"
  by (simp add: unionGenerator_def Let_def distinctGenerator_resolved)

lemma filter_partition:
  "A \<in> shuffles (filter (\<lambda>item. \<not> P item) A) (filter P A)
   \<and> mset (filter (\<lambda>item. \<not> P item) A) + mset (filter P A) = mset A"
proof -
  have "A \<in> shuffles (filter (\<lambda>item. \<not> P item) A) (filter P A)"
    using partition_in_shuffles [of A "\<lambda>item. \<not> P item"] by simp
  moreover have "mset (filter (\<lambda>item. \<not> P item) A) + mset (filter P A) = mset A"
    by (induction A) simp_all
  ultimately show ?thesis by blast
qed

lemma filter_by_key_disjoint:
  "f ` set (filter (\<lambda>item. f item \<notin> K) A) \<inter> f ` set (filter (\<lambda>item. f item \<in> K) A) = {}"
  by auto


section \<open>The claims\<close>

text \<open>
  C1 (the code departs from the claim). The claim: \<^verbatim>\<open>filter\<close> hands its predicate the
  zero-based count of the upstream elements pulled so far, an index that grows with
  every pull. \<^verbatim>\<open>filterGenerator\<close> declares the index and never increments it, so
  every call of the predicate receives 0: a predicate that accepts index 1 only
  accepts nothing, and a predicate that accepts index 0 only accepts every element.
\<close>

theorem filter_index_stays_zero:
  "filterGenerator [10, 20, 30 :: int] (\<lambda>item index. index = 1) = []
   \<and> filterGenerator [10, 20, 30 :: int] (\<lambda>item index. index = 0) = [10, 20, 30]"
  by (simp add: filterGenerator_def)

text \<open>
  C2. \<^verbatim>\<open>append(S, e)\<close> yields \<open>e\<close> first and then the elements of \<open>S\<close> in order;
  \<^verbatim>\<open>prepend(S, e)\<close> yields the elements of \<open>S\<close> in order and then \<open>e\<close> last. In
  particular \<^verbatim>\<open>append([1,2], 0)\<close> is \<open>[0,1,2]\<close> and \<^verbatim>\<open>prepend([1,2], 3)\<close> is \<open>[1,2,3]\<close>.
\<close>

theorem append_prepend_order:
  "appendGenerator S e = e # S
   \<and> prependGenerator S e = S @ [e]
   \<and> appendGenerator [1, 2] (0 :: int) = [0, 1, 2]
   \<and> prependGenerator [1, 2] (3 :: int) = [1, 2, 3]"
  by (simp add: appendGenerator_def prependGenerator_def forOf_yield_eq)

text \<open>
  C3, as stated, fails for \<^verbatim>\<open>skip\<close>: with the count 0, which is not positive,
  \<^verbatim>\<open>skip([1,2,3], 0)\<close> yields all three elements and not the empty sequence.
\<close>

theorem skip_zero_count_not_empty:
  "(0 :: int) \<le> 0
   \<and> skipGenerator [1, 2, 3 :: int] 0 = [1, 2, 3]
   \<and> skipGenerator [1, 2, 3 :: int] 0 \<noteq> []"
  by (simp add: skipGenerator_def iterator_next_def)

text \<open>
  C3, amended. For every count \<open>cnt \<le> 0\<close>, \<^verbatim>\<open>fromRange\<close>, \<^verbatim>\<open>fromRepeat\<close> and \<^verbatim>\<open>take\<close>
  produce the empty sequence, and \<^verbatim>\<open>skip\<close> skips nothing: it yields its source.
\<close>

theorem nonpositive_count:
  "cnt \<le> 0 \<Longrightarrow>
     rangeGenerator start cnt = []
     \<and> repeatGenerator v cnt = []
     \<and> takeGenerator source cnt = []
     \<and> skipGenerator source cnt = source"
  by (simp add: rangeGenerator_def repeatGenerator_def range_loop_done repeat_loop_done
      takeGenerator_eq skipGenerator_eq)

theorem nonpositive_count_witness:
  "(-2 :: int) \<le> 0
   \<and> rangeGenerator 7 (-2) = []
   \<and> repeatGenerator ''x'' (-2) = []
   \<and> takeGenerator [1, 2, 3 :: int] (-2) = []
   \<and> skipGenerator [1, 2, 3 :: int] (-2) = [1, 2, 3]"
  using nonpositive_count [of "-2" 7 "''x''" "[1, 2, 3 :: int]"] by simp

text \<open>
  C4. For all sequences \<open>A\<close> and \<open>B\<close> and every stringifier, \<^verbatim>\<open>union(A, B, s)\<close> yields
  what \<^verbatim>\<open>distinct(concat(A, B), s)\<close> yields, element for element, and the first
  occurrence of each identity wins, in concatenation order: with a stringifier \<open>g\<close>
  the output is \<open>A @ B\<close> restricted to the positions \<open>i\<close> where \<open>g\<close> of the element is
  not \<open>g\<close> of any element at an earlier position; with the stringifier omitted it is
  \<open>A @ B\<close> restricted to the positions whose element does not occur earlier.
\<close>

theorem union_is_distinct_concat:
  "unionGenerator A B (Some g) = distinctGenerator (concatGenerator A B) (Some g)
   \<and> unionGenerator A B (Some g) =
       nths (A @ B) {i. g ((A @ B) ! i) \<notin> g ` set (take i (A @ B))}
   \<and> unionGenerator A B None = distinctGenerator (concatGenerator A B) None
   \<and> unionGenerator A B None =
       nths (A @ B) {i. (A @ B) ! i \<notin> set (take i (A @ B))}"
proof -
  have given: "unionGenerator A B (Some g) =
      nths (A @ B) {i. g ((A @ B) ! i) \<notin> g ` set (take i (A @ B))}"
    unfolding unionGenerator_eq concatGenerator_eq
    using distinctGenerator_nths [of "A @ B" "Some g"]
    by (simp only: orSelfSelector_Some)
  have omitted: "unionGenerator A B None =
      nths (A @ B) {i. (A @ B) ! i \<notin> set (take i (A @ B))}"
    unfolding unionGenerator_eq concatGenerator_eq
    using distinctGenerator_nths [of "A @ B" None]
    by (simp only: orSelfSelector_None_mem)
  from given omitted show ?thesis
    by (simp only: unionGenerator_eq simp_thms)
qed

text \<open>
  C5. For all finite sequences \<open>A\<close> and \<open>B\<close> and every stringifier: \<^verbatim>\<open>except(A, B)\<close>
  keeps the elements of \<open>A\<close> whose identity is not the identity of an element of \<open>B\<close>
  and \<^verbatim>\<open>intersect(A, B)\<close> keeps the others; no identity occurs in both outputs; \<open>A\<close>
  is an interleaving of the two outputs (each keeps the order it has in \<open>A\<close>); and the
  two outputs together are \<open>A\<close> as a multiset, so every element keeps its multiplicity.
  The identity of an element is \<open>g\<close> of it for a stringifier \<open>g\<close>, and the element
  itself when the stringifier is omitted.
\<close>

theorem except_intersect_partition:
  "exceptGenerator A B (Some g) = filter (\<lambda>item. g item \<notin> g ` set B) A
   \<and> intersectGenerator A B (Some g) = filter (\<lambda>item. g item \<in> g ` set B) A
   \<and> g ` set (exceptGenerator A B (Some g)) \<inter> g ` set (intersectGenerator A B (Some g)) = {}
   \<and> A \<in> shuffles (exceptGenerator A B (Some g)) (intersectGenerator A B (Some g))
   \<and> mset (exceptGenerator A B (Some g)) + mset (intersectGenerator A B (Some g)) = mset A
   \<and> exceptGenerator A B None = filter (\<lambda>item. item \<notin> set B) A
   \<and> intersectGenerator A B None = filter (\<lambda>item. item \<in> set B) A
   \<and> set (exceptGenerator A B None) \<inter> set (intersectGenerator A B None) = {}
   \<and> A \<in> shuffles (exceptGenerator A B None) (intersectGenerator A B None)
   \<and> mset (exceptGenerator A B None) + mset (intersectGenerator A B None) = mset A"
proof -
  have eg: "exceptGenerator A B (Some g) = filter (\<lambda>item. g item \<notin> g ` set B) A"
    unfolding exceptGenerator_eq by (simp only: orSelfSelector_Some)
  have ig: "intersectGenerator A B (Some g) = filter (\<lambda>item. g item \<in> g ` set B) A"
    unfolding intersectGenerator_eq by (simp only: orSelfSelector_Some)
  have en: "exceptGenerator A B None = filter (\<lambda>item. item \<notin> set B) A"
    unfolding exceptGenerator_eq by (simp only: orSelfSelector_None_mem)
  have "in": "intersectGenerator A B None = filter (\<lambda>item. item \<in> set B) A"
    unfolding intersectGenerator_eq by (simp only: orSelfSelector_None_mem)
  have given: "g ` set (filter (\<lambda>item. g item \<notin> g ` set B) A)
      \<inter> g ` set (filter (\<lambda>item. g item \<in> g ` set B) A) = {}"
    by (rule filter_by_key_disjoint)
  have omitted: "set (filter (\<lambda>item. item \<notin> set B) A)
      \<inter> set (filter (\<lambda>item. item \<in> set B) A) = {}"
    using filter_by_key_disjoint [of "\<lambda>x. x" "set B" A] by (simp only: image_ident)
  show ?thesis
    unfolding eg ig en "in"
    using given omitted
      filter_partition [of A "\<lambda>item. g item \<in> g ` set B"]
      filter_partition [of A "\<lambda>item. item \<in> set B"]
    by (simp only: simp_thms)
qed

text \<open>
  C6. For every sequence \<open>S\<close> and every stringifier, \<^verbatim>\<open>distinct(S)\<close> yields an element only
  the first time its identity appears: with a stringifier \<open>g\<close> the output is \<open>S\<close>
  restricted to the positions \<open>i\<close> where \<open>g\<close> of the element is not \<open>g\<close> of any earlier
  element, and no two elements of the output have the same \<open>g\<close>; with the stringifier
  omitted the output is \<open>S\<close> restricted to the positions whose element does not occur
  earlier, and no element occurs twice in it. In both cases the output is no longer
  than \<open>S\<close>.
\<close>

theorem distinct_first_occurrences:
  "distinctGenerator S (Some g) = nths S {i. g (S ! i) \<notin> g ` set (take i S)}
   \<and> distinct (map g (distinctGenerator S (Some g)))
   \<and> length (distinctGenerator S (Some g)) \<le> length S
   \<and> distinctGenerator S None = nths S {i. S ! i \<notin> set (take i S)}
   \<and> distinct (distinctGenerator S None)
   \<and> length (distinctGenerator S None) \<le> length S"
proof -
  have "distinctGenerator S (Some g) = nths S {i. g (S ! i) \<notin> g ` set (take i S)}"
    using distinctGenerator_nths [of S "Some g"] by (simp only: orSelfSelector_Some)
  moreover have "distinct (map g (distinctGenerator S (Some g)))"
    using distinctGenerator_distinct [of "Some g" S] by (simp only: orSelfSelector_Some)
  moreover have "distinctGenerator S None = nths S {i. S ! i \<notin> set (take i S)}"
    using distinctGenerator_nths [of S None] by (simp only: orSelfSelector_None_mem)
  moreover have "distinct (distinctGenerator S None)"
    using distinctGenerator_distinct [of None S] by (simp only: orSelfSelector_None_distinct)
  moreover have "length (distinctGenerator S (Some g)) \<le> length S"
    by (rule distinctGenerator_length)
  moreover have "length (distinctGenerator S None) \<le> length S"
    by (rule distinctGenerator_length)
  ultimately show ?thesis by blast
qed

text \<open>
  C7. \<^verbatim>\<open>map\<close> applies its selector elementwise, in order, to each element and its
  position; the outputs of \<^verbatim>\<open>filter\<close>, \<^verbatim>\<open>skip\<close>, \<^verbatim>\<open>take\<close>, \<^verbatim>\<open>distinct\<close>, \<^verbatim>\<open>except\<close>
  and \<^verbatim>\<open>intersect\<close> are subsequences of their input, in the input's order. The other
  lazy operators with an upstream keep its order too (\<^verbatim>\<open>append\<close>, \<^verbatim>\<open>prepend\<close> and
  \<^verbatim>\<open>concat\<close> contain each source as a subsequence); \<^verbatim>\<open>reverse\<close> is the one that
  reorders: it yields the source backwards.
\<close>

theorem operators_preserve_order:
  "mapGenerator S selector = map (\<lambda>(item, i). selector item i) (zip S [0..<length S])
   \<and> subseq (filterGenerator S condition) S
   \<and> subseq (skipGenerator S cnt) S
   \<and> subseq (takeGenerator S cnt) S
   \<and> subseq (distinctGenerator S s) S
   \<and> subseq (exceptGenerator S B s) S
   \<and> subseq (intersectGenerator S B s) S
   \<and> subseq S (appendGenerator S e)
   \<and> subseq S (prependGenerator S e)
   \<and> subseq S (concatGenerator S B)
   \<and> subseq B (concatGenerator S B)
   \<and> reverseGenerator S = rev S"
proof -
  have "subseq (distinctGenerator S s) S"
    by (simp add: distinctGenerator_def Let_def distinct_loop_subseq)
  moreover have "subseq (skipGenerator S cnt) S" and "subseq (takeGenerator S cnt) S"
    by (simp_all add: skipGenerator_eq takeGenerator_eq subseq_take_drop)
  moreover have "subseq S (appendGenerator S e)" and "subseq S (prependGenerator S e)"
    by (simp_all add: appendGenerator_def prependGenerator_def forOf_yield_eq subseq_extended)
  moreover have "subseq S (concatGenerator S B)" and "subseq B (concatGenerator S B)"
    by (simp_all add: concatGenerator_eq subseq_extended)
  ultimately show ?thesis
    by (simp add: mapGenerator_eq filterGenerator_eq exceptGenerator_eq intersectGenerator_eq
        reverseGenerator_eq)
qed

text \<open>
  C8. For every finite sequence \<open>S\<close>, \<^verbatim>\<open>reverse(reverse(S))\<close> yields the elements of
  \<open>S\<close> in the order of \<open>S\<close>.
\<close>

theorem reverse_reverse:
  "reverseGenerator (reverseGenerator S) = S"
  by (simp add: reverseGenerator_eq)

text \<open>
  C9. \<^verbatim>\<open>groupBy([1,2,3,4], x => x % 2)\<close> yields the group with key \<^verbatim>\<open>"0"\<close> and values
  \<open>[2,4]\<close>, then the group with key \<^verbatim>\<open>"1"\<close> and values \<open>[1,3]\<close>: the numeric keys have
  become strings, each group lists its values in source order, and the groups come in
  the enumeration order of the record's keys (ascending for integer keys), although
  the key met first, that of the element 1, is \<^verbatim>\<open>"1"\<close>. JavaScript's \<^verbatim>\<open>%\<close> is the
  remainder of the truncating division, \<open>smod\<close> on \<open>int\<close>. The valueSelector is
  omitted, so each value is the element itself (\<open>Inr\<close>).
\<close>

theorem groupBy_parity_example:
  "groupByGenerator [1, 2, 3, 4 :: int] (\<lambda>x. Number (x smod 2)) None =
     Inr [\<lparr>key = ''0'', val = [Inr 2, Inr 4]\<rparr>, \<lparr>key = ''1'', val = [Inr 1, Inr 3]\<rparr>]
   \<and> ToPropertyKey (Number ((1 :: int) smod 2)) = PString ''1''"
  by (simp add: groupByGenerator_def orSelfSelector_def selfSelector_def ToPropertyKey_def
      NumberToString_def signed_modulo_int_def Get_def objectPrototypeKeys_def
      objectGenerator_def for_in_keys_def string_keys_def array_index_def parse_digits_def
      digit_value_def digits.simps)

text \<open>
  C10. For every sequence \<open>S\<close> and every count \<open>cnt \<le> 0\<close>, negative counts included,
  \<^verbatim>\<open>skip(S, cnt)\<close> yields every element of \<open>S\<close>, unchanged and in order: nothing is
  skipped, and the output is empty only when \<open>S\<close> is.
\<close>

theorem skip_nonpositive_yields_all:
  "cnt \<le> 0 \<Longrightarrow> skipGenerator S cnt = S"
  by (simp add: skipGenerator_eq)

theorem skip_nonpositive_yields_all_witness:
  "(-1 :: int) \<le> 0 \<and> skipGenerator [4, 5, 6 :: int] (-1) = [4, 5, 6]"
  using skip_nonpositive_yields_all [of "-1" "[4, 5, 6 :: int]"] by simp

end
